theory Spec2Isabelle
  imports Main "HOL-Library.Word"
begin

section \<open>Data model\<close>

text \<open>
  The program of \<^verbatim>\<open>02.24-coroutineParsingDataStreamCustomAllocator0/main.cpp\<close>:
  a coroutine \<^verbatim>\<open>Parse\<close> that awaits bytes on a one-slot \<^verbatim>\<open>DataStreamReader\<close> and
  yields completed frames through a \<^verbatim>\<open>generator<std::string, false>\<close>.

  A \<^verbatim>\<open>std::byte\<close> is an 8-bit word; a \<^verbatim>\<open>std::string\<close> is the list of its chars, each the
  byte it was cast from (\<^verbatim>\<open>static_cast<char>(b)\<close> keeps the bit pattern).
\<close>

type_synonym byte = "8 word"
type_synonym cstring = "byte list"

text \<open>
  \<^verbatim>\<open>std::byte operator""_B(char c) { return static_cast<byte>(c); }\<close>, and the
  \<^verbatim>\<open>std::string\<close> with the chars of a text.
\<close>

definition B :: "char \<Rightarrow> byte" where
  "B c = of_char c"

definition text_bytes :: "string \<Rightarrow> cstring" where
  "text_bytes cs = map of_char cs"

text \<open>\<^verbatim>\<open>static const byte ESC{'H'}; static const byte SOF{0x10};\<close>\<close>

definition ESC :: byte where
  "ESC = of_char CHR ''H''"

definition SOF :: byte where
  "SOF = 0x10"

text \<open>
  The ways the program stops other than by returning: the \<^verbatim>\<open>assert\<close> of
  \<^verbatim>\<open>await_resume\<close>, \<^verbatim>\<open>std::terminate\<close> (an exception leaving a \<^verbatim>\<open>noexcept\<close> function),
  resuming through a null coroutine handle, and dereferencing a null pointer.
\<close>

datatype error = AssertionFailed | Terminated | NullHandle | NullDereference

text \<open>
  \<^verbatim>\<open>std::coroutine_handle<>\<close>: default-constructed it is null; the only coroutine that
  ever awaits on the stream is \<^verbatim>\<open>Parse\<close>.
\<close>

datatype coroutine_handle = NullHdl | ParseHdl

record Awaiter =
  mCoroHdl :: coroutine_handle

text \<open>
  \<^verbatim>\<open>DataStreamReader\<close>: \<^verbatim>\<open>Awaiter* mAwaiter{}\<close> and \<^verbatim>\<open>std::optional<byte> mData{}\<close>.
  The pointer is modelled by the awaiter it points to, \<open>None\<close> being \<^verbatim>\<open>nullptr\<close>.
\<close>

record DataStreamReader =
  mAwaiter :: "Awaiter option"
  mData :: "byte option"

text \<open>\<^verbatim>\<open>promise_type_base<T, G, InitialSuspend>\<close> holds the value slot \<^verbatim>\<open>T mValue\<close>.\<close>

record 'a promise_type_base =
  mValue :: 'a

text \<open>
  The four \<^verbatim>\<open>co_await stream\<close> expressions of \<^verbatim>\<open>Parse\<close>, each with the local
  \<^verbatim>\<open>frame\<close> when it is alive there (\<^verbatim>\<open>b\<close> is overwritten by every \<^verbatim>\<open>co_await\<close>):
  \<^item> \<open>AwaitByte\<close>: \<^verbatim>\<open>byte b = co_await stream;\<close> at the top of the outer loop, before
    \<^verbatim>\<open>frame\<close> is constructed;
  \<^item> \<open>AwaitStart\<close>: \<^verbatim>\<open>b = co_await stream;\<close> after an \<^verbatim>\<open>ESC\<close> outside a frame;
  \<^item> \<open>AwaitContent\<close>: \<^verbatim>\<open>b = co_await stream;\<close> at the top of the inner loop;
  \<^item> \<open>AwaitEscaped\<close>: \<^verbatim>\<open>b = co_await stream;\<close> after an \<^verbatim>\<open>ESC\<close> inside a frame.
\<close>

datatype await_point =
    AwaitByte
  | AwaitStart cstring
  | AwaitContent cstring
  | AwaitEscaped cstring

text \<open>
  Where the coroutine is suspended: in one of the \<^verbatim>\<open>co_await\<close>s, or in
  \<^verbatim>\<open>co_yield frame;\<close> (\<^verbatim>\<open>yield_value\<close> returns \<^verbatim>\<open>std::suspend_always\<close>).
\<close>

datatype suspension =
    Awaiting await_point
  | Yielded cstring

text \<open>
  The stream together with the coroutine bound to it: the fields of the
  \<^verbatim>\<open>DataStreamReader\<close>, the point where \<^verbatim>\<open>Parse\<close> is suspended and its promise.
\<close>

record parser = DataStreamReader +
  point :: suspension
  promise :: "cstring promise_type_base"

section \<open>The awaiter\<close>

text \<open>\<^verbatim>\<open>Awaiter(DataStreamReader& event)\<close>: registers itself, its handle still null.\<close>

definition Awaiter_ctor :: "'a DataStreamReader_scheme \<Rightarrow> 'a DataStreamReader_scheme" where
  "Awaiter_ctor s = s\<lparr>mAwaiter := Some \<lparr>mCoroHdl = NullHdl\<rparr>\<rparr>"

definition await_ready :: "'a DataStreamReader_scheme \<Rightarrow> bool" where
  "await_ready s = (mData s \<noteq> None)"

text \<open>\<^verbatim>\<open>await_suspend\<close>: the registered awaiter stashes the handle of the awaiting coroutine.\<close>

definition await_suspend :: "'a DataStreamReader_scheme \<Rightarrow> 'a DataStreamReader_scheme" where
  "await_suspend s = s\<lparr>mAwaiter := Some \<lparr>mCoroHdl = ParseHdl\<rparr>\<rparr>"

text \<open>
  \<^verbatim>\<open>await_resume\<close>: \<^verbatim>\<open>assert(mEvent.mData.has_value());\<close>
  \<^verbatim>\<open>return *std::exchange(mEvent.mData, std::nullopt);\<close>
\<close>

definition await_resume ::
  "'a DataStreamReader_scheme \<Rightarrow> error + byte \<times> 'a DataStreamReader_scheme" where
  "await_resume s =
     (case mData s of
        None \<Rightarrow> Inl AssertionFailed
      | Some d \<Rightarrow> Inr (d, s\<lparr>mData := None\<rparr>))"

section \<open>The promise and the generator\<close>

text \<open>\<^verbatim>\<open>yield_value(T value)\<close>: \<^verbatim>\<open>mValue = value;\<close> and the coroutine suspends.\<close>

definition yield_value :: "'a \<Rightarrow> 'a promise_type_base \<Rightarrow> 'a promise_type_base" where
  "yield_value v p = p\<lparr>mValue := v\<rparr>"

text \<open>
  \<^verbatim>\<open>generator::operator()\<close>: \<^verbatim>\<open>T tmp{}; std::swap(tmp, mCoroHdl.promise().mValue); return tmp;\<close>
  The value-initialised \<^verbatim>\<open>T{}\<close> is the first argument.
\<close>

definition generator_call :: "'a \<Rightarrow> 'a promise_type_base \<Rightarrow> 'a \<times> 'a promise_type_base" where
  "generator_call dflt p = (mValue p, p\<lparr>mValue := dflt\<rparr>)"

text \<open>\<^verbatim>\<open>p()\<close> on the \<^verbatim>\<open>FSM\<close> generator of the parser; \<^verbatim>\<open>std::string{}\<close> is empty.\<close>

definition FSM_call :: "parser \<Rightarrow> cstring \<times> parser" where
  "FSM_call s = (case generator_call [] (promise s) of (res, pr) \<Rightarrow> (res, s\<lparr>promise := pr\<rparr>))"

section \<open>The coroutine Parse\<close>

text \<open>
  The code of \<^verbatim>\<open>Parse\<close> from a \<^verbatim>\<open>co_await\<close> that delivered the byte \<open>b\<close> to the next
  \<^verbatim>\<open>co_await\<close> or \<^verbatim>\<open>co_yield\<close> it reaches. \<^verbatim>\<open>continue\<close> and both \<^verbatim>\<open>break\<close>s end the
  iteration of the outer loop, which destroys \<^verbatim>\<open>frame\<close>.
\<close>

fun body :: "await_point \<Rightarrow> byte \<Rightarrow> suspension" where
  "body AwaitByte b =
     (if ESC = b then Awaiting (AwaitStart []) else Awaiting AwaitByte)"
| "body (AwaitStart frame) b =
     (if SOF \<noteq> b then Awaiting AwaitByte else Awaiting (AwaitContent frame))"
| "body (AwaitContent frame) b =
     (if ESC = b then Awaiting (AwaitEscaped frame)
      else Awaiting (AwaitContent (frame @ [b])))"
| "body (AwaitEscaped frame) b =
     (if SOF = b then Yielded frame
      else if ESC \<noteq> b then Awaiting AwaitByte
      else Awaiting (AwaitContent (frame @ [b])))"

text \<open>
  Running the coroutine until it suspends. At \<^verbatim>\<open>co_yield frame\<close> the promise takes the
  value and the coroutine suspends. At a \<^verbatim>\<open>co_await stream\<close> a new awaiter registers
  itself; when a byte is pending the coroutine does not suspend, takes the byte and
  goes on, otherwise it stashes its handle and suspends.
\<close>

function reach :: "suspension \<Rightarrow> parser \<Rightarrow> error + parser" where
  "reach (Yielded frame) s =
     Inr (s\<lparr>point := Yielded frame, promise := yield_value frame (promise s)\<rparr>)"
| "reach (Awaiting p) s =
     (let s1 = Awaiter_ctor s in
      if await_ready s1 then
        (case await_resume s1 of
           Inl e \<Rightarrow> Inl e
         | Inr (b, s2) \<Rightarrow> reach (body p b) s2)
      else Inr (await_suspend (s1\<lparr>point := Awaiting p\<rparr>)))"
  by pat_completeness auto
termination
  by (relation "measure (\<lambda>(p, s). if mData s = None then 0 else 1)")
     (auto simp: await_resume_def await_ready_def Awaiter_ctor_def split: option.splits)

text \<open>
  \<^verbatim>\<open>mCoroHdl.resume()\<close> on the suspended coroutine: after a \<^verbatim>\<open>co_await\<close> it goes on with
  \<^verbatim>\<open>await_resume\<close>; after the \<^verbatim>\<open>co_yield\<close> it leaves the inner loop (\<^verbatim>\<open>break\<close>) and the
  outer loop awaits the next byte.
\<close>

definition resume :: "parser \<Rightarrow> error + parser" where
  "resume s =
     (case point s of
        Yielded frame \<Rightarrow> reach (Awaiting AwaitByte) s
      | Awaiting p \<Rightarrow>
          (case await_resume s of
             Inl e \<Rightarrow> Inl e
           | Inr (b, s') \<Rightarrow> reach (body p b) s'))"

text \<open>\<^verbatim>\<open>Awaiter::resume\<close>: \<^verbatim>\<open>mCoroHdl.resume()\<close> on the stashed handle.\<close>

definition Awaiter_resume :: "Awaiter \<Rightarrow> parser \<Rightarrow> error + parser" where
  "Awaiter_resume a s =
     (case mCoroHdl a of
        NullHdl \<Rightarrow> Inl NullHandle
      | ParseHdl \<Rightarrow> resume s)"

text \<open>
  \<^verbatim>\<open>DataStreamReader::set\<close> (\<open>set\<close> being the set of a list in HOL):
  \<^verbatim>\<open>mData.emplace(b); if(mAwaiter) { mAwaiter->resume(); }\<close>
  While the coroutine is suspended in \<^verbatim>\<open>co_yield\<close>, \<^verbatim>\<open>mAwaiter\<close> still points to the awaiter
  of the last \<^verbatim>\<open>co_await\<close>, a temporary of the coroutine frame that holds the stashed
  handle; the model keeps that awaiter, as the frame keeps its bytes.
\<close>

definition set_byte :: "byte \<Rightarrow> parser \<Rightarrow> error + parser" where
  "set_byte b s =
     (let s' = s\<lparr>mData := Some b\<rparr> in
      case mAwaiter s' of
        None \<Rightarrow> Inr s'
      | Some a \<Rightarrow> Awaiter_resume a s')"

text \<open>
  \<^verbatim>\<open>Parse(stream)\<close> once its frame is allocated: the promise is default-constructed,
  \<^verbatim>\<open>initial_suspend\<close> is \<^verbatim>\<open>suspend_never\<close>, and the body runs to its first suspension.
\<close>

definition Parse :: "DataStreamReader \<Rightarrow> error + parser" where
  "Parse stream =
     reach (Awaiting AwaitByte)
       \<lparr>mAwaiter = mAwaiter stream, mData = mData stream,
        point = Awaiting AwaitByte, promise = \<lparr>mValue = []\<rparr>\<rparr>"

text \<open>\<^verbatim>\<open>DataStreamReader dr{};\<close>: no awaiter, no byte.\<close>

definition DataStreamReader_init :: DataStreamReader where
  "DataStreamReader_init = \<lparr>mAwaiter = None, mData = None\<rparr>"

section \<open>Feeding bytes\<close>

text \<open>Pushing a sequence of bytes with \<^verbatim>\<open>set\<close>, one after the other.\<close>

fun feed :: "byte list \<Rightarrow> parser \<Rightarrow> error + parser" where
  "feed [] s = Inr s"
| "feed (b # bs) s =
     (case set_byte b s of
        Inl e \<Rightarrow> Inl e
      | Inr s' \<Rightarrow> feed bs s')"

text \<open>
  The frame a \<^verbatim>\<open>set\<close> made the coroutine yield: the coroutine is then suspended in
  \<^verbatim>\<open>co_yield\<close> and the promise holds the value. (A coroutine resumed from its
  \<^verbatim>\<open>co_yield\<close> consumes the pushed byte and suspends in a \<^verbatim>\<open>co_await\<close>.)
\<close>

definition yielded_frame :: "parser \<Rightarrow> cstring option" where
  "yielded_frame s =
     (case point s of
        Yielded frame \<Rightarrow> Some (mValue (promise s))
      | Awaiting p \<Rightarrow> None)"

text \<open>The frames yielded, in order, while a sequence of bytes is pushed.\<close>

fun emitted :: "byte list \<Rightarrow> parser \<Rightarrow> cstring list" where
  "emitted [] s = []"
| "emitted (b # bs) s =
     (case set_byte b s of
        Inl e \<Rightarrow> []
      | Inr s' \<Rightarrow>
          (case yielded_frame s' of None \<Rightarrow> [] | Some f \<Rightarrow> [f]) @ emitted bs s')"

section \<open>The driver\<close>

text \<open>
  The loops of \<^verbatim>\<open>main\<close>, over the bytes the \<^verbatim>\<open>sender\<close> generator yields (those of its
  vector, in order): \<^verbatim>\<open>dr.set(b); if(const auto& res = p(); res.length()) { HandleFrame(res); }\<close>
  The result lists the arguments of the calls of \<^verbatim>\<open>HandleFrame\<close>.
\<close>

fun drive :: "byte list \<Rightarrow> parser \<Rightarrow> error + cstring list \<times> parser" where
  "drive [] s = Inr ([], s)"
| "drive (b # bs) s =
     (case set_byte b s of
        Inl e \<Rightarrow> Inl e
      | Inr s1 \<Rightarrow>
          (case FSM_call s1 of
             (res, s2) \<Rightarrow>
               (case drive bs s2 of
                  Inl e \<Rightarrow> Inl e
                | Inr (out, s3) \<Rightarrow>
                    Inr ((if length res \<noteq> 0 then [res] else []) @ out, s3))))"

definition fakeBytes1 :: "byte list" where
  "fakeBytes1 =
     [0x70, ESC, SOF, ESC, B CHR ''H'', B CHR ''e'', B CHR ''l'', B CHR ''l'', B CHR ''o'',
      ESC, SOF, 0x7, ESC, SOF]"

definition fakeBytes2 :: "byte list" where
  "fakeBytes2 =
     [B CHR ''W'', B CHR ''o'', B CHR ''r'', B CHR ''l'', B CHR ''d'', ESC, SOF, 0x99]"

text \<open>
  \<^verbatim>\<open>main\<close>, the frames of its coroutines allocated: the frames handled in the first loop,
  those handled in the second, and the end state.
\<close>

definition main :: "error + cstring list \<times> cstring list \<times> parser" where
  "main =
     (case Parse DataStreamReader_init of
        Inl e \<Rightarrow> Inl e
      | Inr p \<Rightarrow>
          (case drive fakeBytes1 p of
             Inl e \<Rightarrow> Inl e
           | Inr (out1, p1) \<Rightarrow>
               (case drive fakeBytes2 p1 of
                  Inl e \<Rightarrow> Inl e
                | Inr (out2, p2) \<Rightarrow> Inr (out1, out2, p2))))"

section \<open>Allocation of the coroutine frame\<close>

text \<open>
  \<^verbatim>\<open>new char[sz]\<close>, over a heap that can still provide \<open>avail\<close> bytes: it returns the
  storage (never a null pointer) or throws \<^verbatim>\<open>std::bad_alloc\<close>.
\<close>

datatype pointer = Null | Storage nat

datatype 'a outcome = Returns 'a | Throws_bad_alloc

definition new_char_array :: "nat \<Rightarrow> nat \<Rightarrow> pointer outcome" where
  "new_char_array avail sz = (if sz \<le> avail then Returns (Storage sz) else Throws_bad_alloc)"

text \<open>
  \<^verbatim>\<open>void* Allocate(size_t sz) noexcept { printf(...); return new char[sz]; }\<close>
  An exception that leaves a \<^verbatim>\<open>noexcept\<close> function calls \<^verbatim>\<open>std::terminate\<close>.
\<close>

definition Allocate :: "nat \<Rightarrow> nat \<Rightarrow> error + pointer" where
  "Allocate avail sz =
     (case new_char_array avail sz of
        Returns ptr \<Rightarrow> Inr ptr
      | Throws_bad_alloc \<Rightarrow> Inl Terminated)"

text \<open>\<^verbatim>\<open>promise_type_base::operator new(size_t size) noexcept { return Allocate(size); }\<close>\<close>

definition promise_operator_new :: "nat \<Rightarrow> nat \<Rightarrow> error + pointer" where
  "promise_operator_new avail sz = Allocate avail sz"

text \<open>
  \<^verbatim>\<open>get_return_object_on_allocation_failure() { return G{nullptr}; }\<close> selects
  \<^verbatim>\<open>generator(promise_type* p) : mCoroHdl(PromiseTypeHandle::from_promise(*p))\<close>,
  which dereferences the null pointer.
\<close>

definition get_return_object_on_allocation_failure :: "error + parser" where
  "get_return_object_on_allocation_failure = Inl NullDereference"

text \<open>
  A call \<^verbatim>\<open>Parse(stream)\<close> with its frame allocation, the frame being \<open>sz\<close> bytes: the
  frame comes from the promise's \<^verbatim>\<open>operator new\<close>; were that to return a null pointer,
  the call would return \<^verbatim>\<open>get_return_object_on_allocation_failure()\<close>.
\<close>

definition Parse_call :: "nat \<Rightarrow> nat \<Rightarrow> DataStreamReader \<Rightarrow> error + parser" where
  "Parse_call avail sz stream =
     (case promise_operator_new avail sz of
        Inl e \<Rightarrow> Inl e
      | Inr Null \<Rightarrow> get_return_object_on_allocation_failure
      | Inr (Storage n) \<Rightarrow> Parse stream)"

section \<open>The framing protocol of the specification\<close>

text \<open>
  The encoding of a frame in the specification's words, for an ESCAPE byte \<open>esc\<close> and a
  FRAME-MARKER byte \<open>sof\<close>: ESCAPE+FRAME-MARKER, then the content with ESCAPE+ESCAPE
  for each literal ESCAPE byte and ordinary bytes otherwise, then ESCAPE+FRAME-MARKER.
\<close>

primrec escape_content :: "byte \<Rightarrow> cstring \<Rightarrow> byte list" where
  "escape_content esc [] = []"
| "escape_content esc (c # cs) = (if c = esc then [esc, esc] else [c]) @ escape_content esc cs"

definition encode_frame :: "byte \<Rightarrow> byte \<Rightarrow> cstring \<Rightarrow> byte list" where
  "encode_frame esc sof content = [esc, sof] @ escape_content esc content @ [esc, sof]"

text \<open>
  The state machine of the specification's transition table, with the two protocol
  bytes as parameters. The buffer is emptied on entering a frame and on an abort. The
  table has no entry for ESCAPE after ESCAPE outside a frame; it is taken as
  "other byte", back to IDLE.
\<close>

datatype fsm_state = IDLE | SAW_ESCAPE | IN_FRAME | IN_FRAME_SAW_ESCAPE

fun spec_step ::
  "byte \<Rightarrow> byte \<Rightarrow> fsm_state \<times> cstring \<Rightarrow> byte \<Rightarrow> (fsm_state \<times> cstring) \<times> cstring option" where
  "spec_step esc sof (IDLE, buf) b =
     (if b = esc then ((SAW_ESCAPE, buf), None) else ((IDLE, buf), None))"
| "spec_step esc sof (SAW_ESCAPE, buf) b =
     (if b = sof then ((IN_FRAME, []), None) else ((IDLE, buf), None))"
| "spec_step esc sof (IN_FRAME, buf) b =
     (if b = esc then ((IN_FRAME_SAW_ESCAPE, buf), None) else ((IN_FRAME, buf @ [b]), None))"
| "spec_step esc sof (IN_FRAME_SAW_ESCAPE, buf) b =
     (if b = sof then ((IDLE, buf), Some buf)
      else if b = esc then ((IN_FRAME, buf @ [esc]), None)
      else ((IDLE, []), None))"

fun spec_frames :: "byte \<Rightarrow> byte \<Rightarrow> fsm_state \<times> cstring \<Rightarrow> byte list \<Rightarrow> cstring list" where
  "spec_frames esc sof c [] = []"
| "spec_frames esc sof c (b # bs) =
     (case spec_step esc sof c b of
        (c', out) \<Rightarrow> (case out of None \<Rightarrow> [] | Some f \<Rightarrow> [f]) @ spec_frames esc sof c' bs)"

section \<open>States of the suspended parser\<close>

text \<open>
  The parser is idle when the next byte goes to the \<^verbatim>\<open>co_await\<close> at the top of the outer
  loop: it is suspended there, or in the \<^verbatim>\<open>co_yield\<close> that completed a frame.
\<close>

fun idle_point :: "suspension \<Rightarrow> bool" where
  "idle_point (Awaiting AwaitByte) = True"
| "idle_point (Yielded frame) = True"
| "idle_point (Awaiting p) = False"

definition idle :: "parser \<Rightarrow> bool" where
  "idle s = idle_point (point s)"

text \<open>
  Between two calls of \<^verbatim>\<open>set\<close> the slot is empty and the registered awaiter holds the
  handle of the coroutine.
\<close>

definition waiting :: "parser \<Rightarrow> bool" where
  "waiting s = (mData s = None \<and> mAwaiter s = Some \<lparr>mCoroHdl = ParseHdl\<rparr>)"

text \<open>The point where the coroutine suspends next, when a byte is pushed to a waiting parser.\<close>

fun next_point :: "suspension \<Rightarrow> byte \<Rightarrow> suspension" where
  "next_point (Awaiting p) b = body p b"
| "next_point (Yielded frame) b = body AwaitByte b"

fun frames_from :: "suspension \<Rightarrow> byte list \<Rightarrow> cstring list" where
  "frames_from pt [] = []"
| "frames_from pt (b # bs) =
     (case next_point pt b of
        Yielded f \<Rightarrow> [f]
      | Awaiting p \<Rightarrow> []) @ frames_from (next_point pt b) bs"

text \<open>
  The correspondence between the suspension points of \<^verbatim>\<open>Parse\<close> and the states of the
  specification's table: the buffer of the table is the local \<^verbatim>\<open>frame\<close> inside a frame, and \<^verbatim>\<open>frame\<close> is
  still empty after the first ESC.
\<close>

fun matches :: "suspension \<Rightarrow> fsm_state \<times> cstring \<Rightarrow> bool" where
  "matches (Awaiting AwaitByte) c = (fst c = IDLE)"
| "matches (Awaiting (AwaitStart frame)) c = (fst c = SAW_ESCAPE \<and> frame = [])"
| "matches (Awaiting (AwaitContent frame)) c = (c = (IN_FRAME, frame))"
| "matches (Awaiting (AwaitEscaped frame)) c = (c = (IN_FRAME_SAW_ESCAPE, frame))"
| "matches (Yielded frame) c = (fst c = IDLE)"

text \<open>The parser that \<^verbatim>\<open>Parse(dr)\<close> returns for a new \<^verbatim>\<open>DataStreamReader\<close>.\<close>

definition parser_init :: parser where
  "parser_init =
     \<lparr>mAwaiter = Some \<lparr>mCoroHdl = ParseHdl\<rparr>, mData = None,
      point = Awaiting AwaitByte, promise = \<lparr>mValue = []\<rparr>\<rparr>"

section \<open>A push to a waiting parser\<close>

lemma ESC_neq_SOF: "ESC \<noteq> SOF" by (simp add: ESC_def SOF_def)

lemma Parse_init: "Parse DataStreamReader_init = Inr parser_init"
  by (simp add: Parse_def DataStreamReader_init_def parser_init_def Awaiter_ctor_def
      await_ready_def await_suspend_def)

lemma waiting_init: "waiting parser_init" by (simp add: waiting_def parser_init_def)

lemma reach_suspends:
  "mData s = None \<Longrightarrow>
   reach (Awaiting p) s = Inr (s\<lparr>mAwaiter := Some \<lparr>mCoroHdl = ParseHdl\<rparr>, point := Awaiting p\<rparr>)"
  by (simp add: Awaiter_ctor_def await_ready_def await_suspend_def)

lemmas chan_defs = set_byte_def Awaiter_resume_def resume_def await_resume_def
  Awaiter_ctor_def await_ready_def await_suspend_def

lemma set_byte_waiting:
  assumes "waiting s"
  shows "set_byte b s =
     Inr (case next_point (point s) b of
            Awaiting p \<Rightarrow> s\<lparr>point := Awaiting p\<rparr>
          | Yielded f \<Rightarrow> s\<lparr>point := Yielded f, promise := yield_value f (promise s)\<rparr>)"
proof (cases "point s")
  case (Awaiting p)
  show ?thesis
  proof (cases "body p b")
    case (Awaiting q)
    then show ?thesis using assms \<open>point s = Awaiting p\<close>
      by (cases s) (simp add: chan_defs waiting_def)
  next
    case (Yielded f)
    then show ?thesis using assms \<open>point s = Awaiting p\<close>
      by (cases s) (simp add: chan_defs waiting_def)
  qed
next
  case (Yielded f)
  obtain q where q: "body AwaitByte b = Awaiting q" by (cases "ESC = b") simp_all
  show ?thesis using assms Yielded q
      by (cases s) (simp add: chan_defs waiting_def)
qed

lemma waiting_set_byte:
  "waiting s \<Longrightarrow> set_byte b s = Inr s' \<Longrightarrow> waiting s' \<and> point s' = next_point (point s) b"
  by (auto simp: set_byte_waiting waiting_def split: suspension.splits)


lemma feed_waiting:
  "waiting s \<Longrightarrow>
   \<exists>s'. feed bs s = Inr s' \<and> waiting s' \<and> point s' = foldl next_point (point s) bs"
proof (induction bs arbitrary: s)
  case Nil
  then show ?case by simp
next
  case (Cons b bs)
  obtain s1 where s1: "set_byte b s = Inr s1"
    using set_byte_waiting [OF Cons.prems] by blast
  then have "waiting s1" "point s1 = next_point (point s) b"
    using waiting_set_byte [OF Cons.prems s1] by simp_all
  with Cons.IH [of s1] s1 show ?case by simp
qed

lemma yielded_frame_set_byte:
  "waiting s \<Longrightarrow> set_byte b s = Inr s' \<Longrightarrow>
   yielded_frame s' = (case next_point (point s) b of Yielded f \<Rightarrow> Some f | Awaiting p \<Rightarrow> None)"
  by (auto simp: set_byte_waiting yielded_frame_def yield_value_def split: suspension.splits)

lemma emitted_waiting: "waiting s \<Longrightarrow> emitted bs s = frames_from (point s) bs"
proof (induction bs arbitrary: s)
  case Nil
  then show ?case by simp
next
  case (Cons b bs)
  obtain s1 where s1: "set_byte b s = Inr s1"
    using set_byte_waiting [OF Cons.prems] by blast
  have w: "waiting s1" and p: "point s1 = next_point (point s) b"
    using waiting_set_byte [OF Cons.prems s1] by simp_all
  show ?case
    using s1 p Cons.IH [OF w] yielded_frame_set_byte [OF Cons.prems s1]
    by (simp split: suspension.splits)
qed

lemma feed_append:
  "feed (xs @ ys) s = (case feed xs s of Inl e \<Rightarrow> Inl e | Inr s' \<Rightarrow> feed ys s')"
  by (induction xs arbitrary: s) (simp_all split: sum.splits)

lemma frames_from_append:
  "frames_from pt (xs @ ys) = frames_from pt xs @ frames_from (foldl next_point pt xs) ys"
  by (induction xs arbitrary: pt) simp_all

lemma next_point_idle: "idle_point pt \<Longrightarrow> next_point pt b = body AwaitByte b"
  by (induction pt rule: idle_point.induct) simp_all


lemma content_points:
  "foldl next_point (Awaiting (AwaitContent g)) (escape_content ESC c) = Awaiting (AwaitContent (g @ c))"
  using ESC_neq_SOF by (induction c arbitrary: g) auto

lemma content_frames:
  "frames_from (Awaiting (AwaitContent g)) (escape_content ESC c) = []"
  using ESC_neq_SOF by (induction c arbitrary: g) auto

lemma frame_points:
  "idle_point pt \<Longrightarrow> foldl next_point pt (encode_frame ESC SOF c) = Yielded c"
  by (simp add: encode_frame_def next_point_idle content_points)

lemma frame_frames:
  "idle_point pt \<Longrightarrow> frames_from pt (encode_frame ESC SOF c) = [c]"
  by (simp add: encode_frame_def next_point_idle content_points content_frames frames_from_append)





section \<open>Frames emitted\<close>



section \<open>Auxiliary facts\<close>

lemma ESC_value: "ESC = 0x48" by (simp add: ESC_def)

lemmas run_defs = Parse_def DataStreamReader_init_def parser_init_def set_byte_def
  Awaiter_resume_def resume_def await_resume_def Awaiter_ctor_def await_ready_def
  await_suspend_def yield_value_def FSM_call_def generator_call_def yielded_frame_def
  ESC_def SOF_def B_def text_bytes_def

lemma feed_snoc:
  "feed (q @ [b]) s = (case feed q s of Inl e \<Rightarrow> Inl e | Inr s1 \<Rightarrow> set_byte b s1)"
  by (simp add: feed_append split: sum.splits)

lemma yielded_frame_feed:
  assumes "waiting s" "feed (q @ [b]) s = Inr s'"
  shows "yielded_frame s' =
         (case foldl next_point (point s) (q @ [b]) of Yielded f \<Rightarrow> Some f | Awaiting p \<Rightarrow> None)"
proof -
  obtain s1 where s1: "feed q s = Inr s1" "waiting s1" "point s1 = foldl next_point (point s) q"
    using feed_waiting [OF assms(1), of q] by blast
  then have "set_byte b s1 = Inr s'" using assms(2) by (simp add: feed_snoc)
  from yielded_frame_set_byte [OF s1(2) this] show ?thesis by (simp add: s1(3))
qed

lemma emitted_append:
  "waiting s \<Longrightarrow> feed xs s = Inr s' \<Longrightarrow> emitted (xs @ ys) s = emitted xs s @ emitted ys s'"
proof -
  assume w: "waiting s" and f: "feed xs s = Inr s'"
  obtain s1 where "feed xs s = Inr s1" "waiting s1" "point s1 = foldl next_point (point s) xs"
    using feed_waiting [OF w, of xs] by blast
  with f have "waiting s'" "point s' = foldl next_point (point s) xs" by simp_all
  then show ?thesis
    by (simp add: emitted_waiting [OF w] emitted_waiting [OF \<open>waiting s'\<close>] frames_from_append)
qed

lemma Parse_waiting: "\<exists>p. Parse stream = Inr p \<and> waiting p"
proof (cases "mData stream")
  case None
  then show ?thesis
    by (simp add: Parse_def Awaiter_ctor_def await_ready_def await_suspend_def waiting_def)
next
  case (Some d)
  obtain q where q: "body AwaitByte d = Awaiting q" by (cases "ESC = d") simp_all
  show ?thesis using Some q
    by (simp add: Parse_def Awaiter_ctor_def await_ready_def await_suspend_def await_resume_def
        waiting_def)
qed

lemma FSM_call_waiting: "waiting s \<Longrightarrow> waiting (snd (FSM_call s))"
  by (simp add: FSM_call_def generator_call_def waiting_def)

lemma FSM_call_point: "point (snd (FSM_call s)) = point s"
  by (simp add: FSM_call_def generator_call_def)

lemma FSM_call_cleared: "mValue (promise (snd (FSM_call s))) = []"
  by (simp add: FSM_call_def generator_call_def)

lemma drive_waiting:
  "waiting s \<Longrightarrow> \<exists>out s'. drive bs s = Inr (out, s') \<and> waiting s'"
proof (induction bs arbitrary: s)
  case Nil
  then show ?case by simp
next
  case (Cons b bs)
  obtain s1 where s1: "set_byte b s = Inr s1"
    using set_byte_waiting [OF Cons.prems] by blast
  have "waiting s1" using waiting_set_byte [OF Cons.prems s1] by simp
  then have "waiting (snd (FSM_call s1))" by (rule FSM_call_waiting)
  from Cons.IH [OF this] obtain out s' where
    "drive bs (snd (FSM_call s1)) = Inr (out, s')" "waiting s'" by blast
  then show ?case using s1 by (cases "FSM_call s1") simp
qed

lemma drive_step:
  assumes "waiting s" "mValue (promise s) = []"
  shows "\<exists>s1. set_byte b s = Inr s1 \<and>
              fst (FSM_call s1) = (case next_point (point s) b of Yielded f \<Rightarrow> f | Awaiting p \<Rightarrow> []) \<and>
              waiting (snd (FSM_call s1)) \<and>
              point (snd (FSM_call s1)) = next_point (point s) b"
  using assms
  by (auto simp: set_byte_waiting FSM_call_def generator_call_def yield_value_def waiting_def
      split: suspension.splits)

lemma drive_append:
  "drive (xs @ ys) s =
     (case drive xs s of
        Inl e \<Rightarrow> Inl e
      | Inr (o1, s1) \<Rightarrow>
          (case drive ys s1 of
             Inl e \<Rightarrow> Inl e
           | Inr (o2, s2) \<Rightarrow> Inr (o1 @ o2, s2)))"
  by (induction xs arbitrary: s) (auto split: sum.splits prod.splits)

lemma drive_polled:
  assumes "waiting s" "mValue (promise s) = []"
  shows "\<exists>s'. drive bs s = Inr (filter (\<lambda>f. length f \<noteq> 0) (frames_from (point s) bs), s') \<and>
              waiting s' \<and> mValue (promise s') = [] \<and>
              point s' = foldl next_point (point s) bs"
  using assms
proof (induction bs arbitrary: s)
  case Nil
  then show ?case by simp
next
  case (Cons b bs)
  from drive_step [OF Cons.prems, of b] obtain s1 where
    s1: "set_byte b s = Inr s1"
    and r: "fst (FSM_call s1) = (case next_point (point s) b of Yielded f \<Rightarrow> f | Awaiting p \<Rightarrow> [])"
    and w: "waiting (snd (FSM_call s1))"
    and pt: "point (snd (FSM_call s1)) = next_point (point s) b" by blast
  from Cons.IH [OF w FSM_call_cleared] obtain s' where
    d: "drive bs (snd (FSM_call s1)) =
        Inr (filter (\<lambda>f. length f \<noteq> 0) (frames_from (next_point (point s) b) bs), s')"
    and w': "waiting s'" and v': "mValue (promise s') = []"
    and p': "point s' = foldl next_point (next_point (point s) b) bs"
    by (auto simp: pt)
  have "drive (b # bs) s =
        Inr (filter (\<lambda>f. length f \<noteq> 0) (frames_from (point s) (b # bs)), s')"
    using s1 r d by (cases "FSM_call s1") (auto split: suspension.splits)
  with w' v' p' show ?case by simp
qed

lemma frames_from_idle:
  "idle_point a \<Longrightarrow> idle_point b \<Longrightarrow> frames_from a bs = frames_from b bs"
  by (cases bs) (simp_all add: next_point_idle)

lemma spec_step_matches:
  assumes "matches pt c"
  shows "matches (next_point pt b) (fst (spec_step ESC SOF c b)) \<and>
         snd (spec_step ESC SOF c b) =
           (case next_point pt b of Yielded f \<Rightarrow> Some f | Awaiting p \<Rightarrow> None)"
proof (cases c)
  case (Pair st buf)
  show ?thesis using assms unfolding Pair
    by (induction pt "(st, buf)" rule: matches.induct) (use ESC_neq_SOF in auto)
qed

lemma spec_frames_matches:
  "matches pt c \<Longrightarrow> frames_from pt bs = spec_frames ESC SOF c bs"
proof (induction bs arbitrary: pt c)
  case Nil
  then show ?case by simp
next
  case (Cons b bs)
  obtain c' out where st: "spec_step ESC SOF c b = (c', out)" by (cases "spec_step ESC SOF c b")
  from spec_step_matches [OF Cons.prems, of b] st
  have m: "matches (next_point pt b) c'"
    and o: "out = (case next_point pt b of Yielded f \<Rightarrow> Some f | Awaiting p \<Rightarrow> None)"
    by simp_all
  show ?case using Cons.IH [OF m] st o by (simp split: suspension.splits)
qed

section \<open>Round trip\<close>

text \<open>
  Claim C2. A frame content is encoded as ESC SOF, the content with each literal ESC
  byte written ESC ESC and every other byte as it is, ESC SOF. Pushed to the parser
  that \<^verbatim>\<open>Parse\<close> returns for a new stream, the encoding makes it emit exactly one frame,
  the original content; the last push leaves the coroutine in its \<^verbatim>\<open>co_yield\<close> with
  that content, and \<^verbatim>\<open>p()\<close> returns it. This holds for every content, so also for
  every content with one or more ESC-valued bytes.
\<close>

theorem Parse_decodes_encoded_frame:
  assumes "Parse DataStreamReader_init = Inr p"
  shows "emitted (encode_frame ESC SOF content) p = [content] \<and>
         (\<exists>s. feed (encode_frame ESC SOF content) p = Inr s \<and>
              yielded_frame s = Some content \<and> fst (FSM_call s) = content)"
proof -
  have p: "p = parser_init" using assms Parse_init by simp
  have w: "waiting p" by (simp add: p waiting_init)
  have i: "idle_point (point p)" by (simp add: p parser_init_def)
  have e: "emitted (encode_frame ESC SOF content) p = [content]"
    by (simp add: emitted_waiting [OF w] frame_frames [OF i])
  obtain s where s: "feed (encode_frame ESC SOF content) p = Inr s"
    using feed_waiting [OF w] by blast
  have enc: "encode_frame ESC SOF content = ([ESC, SOF] @ escape_content ESC content @ [ESC]) @ [SOF]"
    by (simp add: encode_frame_def)
  have y: "yielded_frame s = Some content"
    using yielded_frame_feed [OF w s [unfolded enc]] frame_points [OF i, of content]
    by (simp add: enc)
  then have "fst (FSM_call s) = content"
    by (simp add: yielded_frame_def FSM_call_def generator_call_def split: suspension.splits)
  with e s y show ?thesis by blast
qed

text \<open>The content "Hello" starts with the ESC-valued byte \<^verbatim>\<open>'H'\<close>.\<close>

theorem Parse_decodes_encoded_frame_witness:
  "Parse DataStreamReader_init = Inr parser_init \<and>
   ESC \<in> set [0x48, 0x65, 0x6c, 0x6c, 0x6f] \<and>
   encode_frame ESC SOF [0x48, 0x65, 0x6c, 0x6c, 0x6f] =
     [0x48, 0x10, 0x48, 0x48, 0x65, 0x6c, 0x6c, 0x6f, 0x48, 0x10] \<and>
   emitted [0x48, 0x10, 0x48, 0x48, 0x65, 0x6c, 0x6c, 0x6f, 0x48, 0x10] parser_init =
     [[0x48, 0x65, 0x6c, 0x6c, 0x6f]]"
proof -
  have enc: "encode_frame ESC SOF [0x48, 0x65, 0x6c, 0x6c, 0x6f] =
     [0x48, 0x10, 0x48, 0x48, 0x65, 0x6c, 0x6c, 0x6f, 0x48, 0x10]"
    by (simp add: encode_frame_def ESC_def SOF_def)
  have "ESC \<in> set [0x48, 0x65, 0x6c, 0x6c, 0x6f]" by (simp add: ESC_def)
  then show ?thesis
    using Parse_decodes_encoded_frame [OF Parse_init, of "[0x48, 0x65, 0x6c, 0x6c, 0x6f]"]
      Parse_init enc
    by simp
qed


section \<open>The two streams of main\<close>

lemma drive_fakeBytes1: "drive fakeBytes1 parser_init =
     Inr ([text_bytes ''Hello''], parser_init\<lparr>point := Awaiting (AwaitContent [])\<rparr>)"
  by (simp add: fakeBytes1_def run_defs)

lemma drive_fakeBytes2: "drive fakeBytes2 (parser_init\<lparr>point := Awaiting (AwaitContent [])\<rparr>) =
     Inr ([text_bytes ''World''], parser_init)"
  by (simp add: fakeBytes2_def run_defs)

lemma emitted_fakeBytes1: "emitted fakeBytes1 parser_init = [text_bytes ''Hello'']"
  by (simp add: fakeBytes1_def run_defs)

lemma emitted_fakeBytes2: "emitted fakeBytes2 (parser_init\<lparr>point := Awaiting (AwaitContent [])\<rparr>) = [text_bytes ''World'']"
  by (simp add: fakeBytes2_def run_defs)

text \<open>
  Claim C3. \<^verbatim>\<open>main\<close> pushes \<^verbatim>\<open>fakeBytes1\<close> (0x70, ESC, SOF, ESC, 'H', 'e', 'l', 'l', 'o',
  ESC, SOF, 0x07, ESC, SOF) to a new parser: exactly one frame is emitted and handled,
  "Hello". The leading 0x70 and the 0x07 leave no trace, and the closing ESC, SOF
  leave the coroutine inside a frame, in the \<^verbatim>\<open>co_await\<close> of the inner loop with an empty
  \<^verbatim>\<open>frame\<close>. Pushing \<^verbatim>\<open>fakeBytes2\<close> ('W', 'o', 'r', 'l', 'd', ESC, SOF, 0x99) to the same
  parser and stream emits and handles exactly one more frame, "World"; the 0x99 is
  dropped and the coroutine awaits the next byte at the top of the outer loop.
\<close>

theorem main_Hello_World:
  "main = Inr ([text_bytes ''Hello''], [text_bytes ''World''], parser_init) \<and>
   Parse DataStreamReader_init = Inr parser_init \<and>
   emitted fakeBytes1 parser_init = [text_bytes ''Hello''] \<and>
   drive fakeBytes1 parser_init =
     Inr ([text_bytes ''Hello''], parser_init\<lparr>point := Awaiting (AwaitContent [])\<rparr>) \<and>
   emitted fakeBytes2 (parser_init\<lparr>point := Awaiting (AwaitContent [])\<rparr>) =
     [text_bytes ''World''] \<and>
   drive fakeBytes2 (parser_init\<lparr>point := Awaiting (AwaitContent [])\<rparr>) =
     Inr ([text_bytes ''World''], parser_init) \<and>
   point parser_init = Awaiting AwaitByte"
  by (simp add: main_def Parse_init drive_fakeBytes1 drive_fakeBytes2 emitted_fakeBytes1 emitted_fakeBytes2) (simp add: parser_init_def)


section \<open>Desynchronisation\<close>

text \<open>
  Claim C4. Whatever bytes \<open>pre\<close> brought the parser inside a frame, with whatever
  content buffered in \<^verbatim>\<open>frame\<close>: an ESC followed by a byte that is neither SOF nor ESC
  is taken without any error, emits no frame, and leaves the coroutine in the
  \<^verbatim>\<open>co_await\<close> at the top of the outer loop, where no \<^verbatim>\<open>frame\<close> exists; the promise and so
  the value \<^verbatim>\<open>p()\<close> returns are unchanged, and the stream holds no byte, the aborting
  byte being consumed. Nothing of the dropped content reaches a later frame: a frame
  encoded right after the abort is emitted with its own content only.
\<close>

theorem desync_discards_frame:
  assumes "Parse DataStreamReader_init = Inr p"
    and "feed pre p = Inr s"
    and "point s = Awaiting (AwaitContent frame)"
    and "x \<noteq> SOF" and "x \<noteq> ESC"
  shows "feed (pre @ [ESC, x]) p = Inr (s\<lparr>point := Awaiting AwaitByte\<rparr>) \<and>
         emitted (pre @ [ESC, x]) p = emitted pre p \<and>
         idle (s\<lparr>point := Awaiting AwaitByte\<rparr>) \<and>
         promise (s\<lparr>point := Awaiting AwaitByte\<rparr>) = promise s \<and>
         mData (s\<lparr>point := Awaiting AwaitByte\<rparr>) = None \<and>
         emitted ((pre @ [ESC, x]) @ encode_frame ESC SOF c) p = emitted pre p @ [c]"
proof -
  have p: "p = parser_init" using assms(1) Parse_init by simp
  have w: "waiting p" by (simp add: p waiting_init)
  obtain s1 where "feed pre p = Inr s1" "waiting s1"
    using feed_waiting [OF w, of pre] by blast
  with assms(2) have ws: "waiting s" by simp
  have 1: "set_byte ESC s = Inr (s\<lparr>point := Awaiting (AwaitEscaped frame)\<rparr>)"
    by (simp add: set_byte_waiting [OF ws] assms(3))
  have ws': "waiting (s\<lparr>point := Awaiting (AwaitEscaped frame)\<rparr>)"
    using ws by (simp add: waiting_def)
  have 2: "set_byte x (s\<lparr>point := Awaiting (AwaitEscaped frame)\<rparr>) =
           Inr (s\<lparr>point := Awaiting AwaitByte\<rparr>)"
    using assms(4,5) by (simp add: set_byte_waiting [OF ws'])
  have f: "feed [ESC, x] s = Inr (s\<lparr>point := Awaiting AwaitByte\<rparr>)"
    by (simp add: 1 2)
  have e: "emitted [ESC, x] s = []"
    by (simp add: 1 2 yielded_frame_def)
  have F: "feed (pre @ [ESC, x]) p = Inr (s\<lparr>point := Awaiting AwaitByte\<rparr>)"
    unfolding feed_append [of pre] assms(2) using f by simp
  have E: "emitted (pre @ [ESC, x]) p = emitted pre p"
    unfolding emitted_append [OF w assms(2)] e by simp
  have wa: "waiting (s\<lparr>point := Awaiting AwaitByte\<rparr>)"
    using ws by (simp add: waiting_def)
  have "emitted (encode_frame ESC SOF c) (s\<lparr>point := Awaiting AwaitByte\<rparr>) = [c]"
    by (simp add: emitted_waiting [OF wa] frame_frames)
  then have N: "emitted ((pre @ [ESC, x]) @ encode_frame ESC SOF c) p = emitted pre p @ [c]"
    unfolding emitted_append [OF w F] E by simp
  have "mData (s\<lparr>point := Awaiting AwaitByte\<rparr>) = None"
    using ws by (simp add: waiting_def)
  with F E N show ?thesis by (simp add: idle_def)
qed

text \<open>
  The input ESC, SOF, 'a', 'b', ESC, 'x': after four bytes "ab" is buffered; after
  all six no frame was emitted, none was handled by the driver, and the parser is
  back where \<^verbatim>\<open>Parse\<close> left it, "ab" gone.
\<close>

theorem desync_discards_frame_witness:
  "Parse DataStreamReader_init = Inr parser_init \<and>
   feed [ESC, SOF, B CHR ''a'', B CHR ''b''] parser_init =
     Inr (parser_init\<lparr>point := Awaiting (AwaitContent (text_bytes ''ab''))\<rparr>) \<and>
   B CHR ''x'' \<noteq> SOF \<and> B CHR ''x'' \<noteq> ESC \<and>
   feed [ESC, SOF, B CHR ''a'', B CHR ''b'', ESC, B CHR ''x''] parser_init = Inr parser_init \<and>
   emitted [ESC, SOF, B CHR ''a'', B CHR ''b'', ESC, B CHR ''x''] parser_init = [] \<and>
   drive [ESC, SOF, B CHR ''a'', B CHR ''b'', ESC, B CHR ''x''] parser_init =
     Inr ([], parser_init) \<and>
   idle parser_init"
proof -
  let ?s = "parser_init\<lparr>point := Awaiting (AwaitContent (text_bytes ''ab''))\<rparr>"
  have f: "feed [ESC, SOF, B CHR ''a'', B CHR ''b''] parser_init = Inr ?s"
    by (simp add: run_defs)
  have e: "emitted [ESC, SOF, B CHR ''a'', B CHR ''b''] parser_init = []"
    by (simp add: run_defs)
  have d: "drive [ESC, SOF, B CHR ''a'', B CHR ''b'', ESC, B CHR ''x''] parser_init =
     Inr ([], parser_init)"
    by (simp add: run_defs)
  have x: "B CHR ''x'' \<noteq> SOF" "B CHR ''x'' \<noteq> ESC" by (simp_all add: run_defs)
  have pt: "point ?s = Awaiting (AwaitContent (text_bytes ''ab''))" by simp
  have r: "?s\<lparr>point := Awaiting AwaitByte\<rparr> = parser_init" by (simp add: parser_init_def)
  show ?thesis
    using desync_discards_frame [OF Parse_init f pt x] Parse_init f x e d
    by (simp add: r)
qed

section \<open>The one-byte slot\<close>

text \<open>
  Claim C5. On a stream with no registered awaiter, \<^verbatim>\<open>set\<close> only stores its byte and
  returns. Two calls in a row leave the second byte in the slot, which holds one
  byte: the next \<^verbatim>\<open>co_await\<close> is ready at once, its \<^verbatim>\<open>await_resume\<close> returns the second
  byte and empties the slot, and the first byte is lost without any error. The
  \<^verbatim>\<open>co_await\<close> at the top of \<^verbatim>\<open>Parse\<close> goes on with the second byte.
\<close>

theorem set_twice_last_write_wins:
  assumes "mAwaiter s = None"
  shows "set_byte b1 s = Inr (s\<lparr>mData := Some b1\<rparr>) \<and>
         set_byte b2 (s\<lparr>mData := Some b1\<rparr>) = Inr (s\<lparr>mData := Some b2\<rparr>) \<and>
         await_ready (Awaiter_ctor (s\<lparr>mData := Some b2\<rparr>)) \<and>
         await_resume (Awaiter_ctor (s\<lparr>mData := Some b2\<rparr>)) =
           Inr (b2, Awaiter_ctor (s\<lparr>mData := None\<rparr>)) \<and>
         \<not> await_ready (Awaiter_ctor (s\<lparr>mData := None\<rparr>)) \<and>
         reach (Awaiting AwaitByte) (s\<lparr>mData := Some b2\<rparr>) =
           reach (body AwaitByte b2) (Awaiter_ctor (s\<lparr>mData := None\<rparr>))"
  using assms
  by (simp add: set_byte_def await_ready_def await_resume_def Awaiter_ctor_def)

theorem set_twice_last_write_wins_witness:
  "mAwaiter (parser_init\<lparr>mAwaiter := None\<rparr>) = None \<and>
   set_byte 2 (parser_init\<lparr>mAwaiter := None, mData := Some 1\<rparr>) =
     Inr (parser_init\<lparr>mAwaiter := None, mData := Some 2\<rparr>) \<and>
   await_resume (Awaiter_ctor (parser_init\<lparr>mAwaiter := None, mData := Some 2\<rparr>)) =
     Inr (2, Awaiter_ctor (parser_init\<lparr>mAwaiter := None, mData := None\<rparr>))"
  using set_twice_last_write_wins [of "parser_init\<lparr>mAwaiter := None\<rparr>" 1 2]
  by simp

section \<open>Extraction\<close>



section \<open>Allocation failure\<close>

lemma Allocate_never_Null: "Allocate avail sz \<noteq> Inr Null"
  by (simp add: Allocate_def new_char_array_def)

lemma Parse_call_cases:
  "Parse_call avail sz stream = (if sz \<le> avail then Parse stream else Inl Terminated)"
  by (simp add: Allocate_def new_char_array_def Parse_call_def promise_operator_new_def)


text \<open>
  Claim C7, on the code: \<^verbatim>\<open>Allocate\<close> is \<^verbatim>\<open>noexcept\<close> and allocates with the throwing
  \<^verbatim>\<open>new char[sz]\<close>. When the heap cannot provide the frame, the exception ends the
  program in \<^verbatim>\<open>std::terminate\<close>: \<^verbatim>\<open>Parse(dr)\<close> returns no generator at all, and
  \<^verbatim>\<open>get_return_object_on_allocation_failure\<close> is never reached, \<^verbatim>\<open>Allocate\<close> returning no
  null pointer. With room for the frame the call returns the parser.
\<close>

theorem Allocate_failure_terminates:
  "Allocate 0 1 = Inl Terminated \<and>
   Parse_call 0 1 DataStreamReader_init = Inl Terminated \<and>
   Parse_call 1 1 DataStreamReader_init = Inr parser_init"
  by (simp add: Allocate_def new_char_array_def Parse_call_def promise_operator_new_def Parse_init)

section \<open>The protocol bytes\<close>

text \<open>
  Claim C8, as the code has it: \<^verbatim>\<open>Parse\<close> takes the stream and nothing else; ESC and SOF
  are the constants \<^verbatim>\<open>'H'\<close> = 0x48 and 0x10 of the file. The parser it returns for a new
  stream emits, on every input, the frames of the specification's state machine for
  ESCAPE = 0x48 and FRAME-MARKER = 0x10.
\<close>

theorem Parse_delimiters_fixed:
  "Parse DataStreamReader_init = Inr parser_init \<and> ESC = 0x48 \<and> SOF = 0x10 \<and>
   emitted bs parser_init = spec_frames 0x48 0x10 (IDLE, []) bs"
proof -
  have "emitted bs parser_init = frames_from (point parser_init) bs"
    by (rule emitted_waiting [OF waiting_init])
  also have "\<dots> = spec_frames ESC SOF (IDLE, []) bs"
    by (rule spec_frames_matches) (simp add: parser_init_def)
  finally show ?thesis by (simp add: Parse_init ESC_value SOF_def)
qed

text \<open>
  For ESCAPE = 0x01 and FRAME-MARKER = 0x02 the frame "a" is encoded 0x01, 0x02, 'a',
  0x01, 0x02. The specification's state machine for these two bytes emits "a"; the
  parser that \<^verbatim>\<open>Parse\<close> constructs, the only one there is, emits nothing.
\<close>

theorem Parse_other_delimiters_counterexample:
  "Parse DataStreamReader_init = Inr parser_init \<and>
   encode_frame 0x01 0x02 (text_bytes ''a'') = [0x01, 0x02, 0x61, 0x01, 0x02] \<and>
   spec_frames 0x01 0x02 (IDLE, []) [0x01, 0x02, 0x61, 0x01, 0x02] = [text_bytes ''a''] \<and>
   emitted [0x01, 0x02, 0x61, 0x01, 0x02] parser_init = []"
  by (simp add: Parse_init) (simp add: run_defs encode_frame_def)


section \<open>Empty frames\<close>

text \<open>
  Claim C9, for an empty value slot. The driver calls \<^verbatim>\<open>p()\<close> after every push, so after
  any bytes \<open>pre\<close> it has pushed the slot of the promise holds the empty string. When the
  parser is idle then, ESC, SOF, ESC, SOF makes it yield a frame, the empty string, and
  \<^verbatim>\<open>p()\<close> returns the empty string, as it does without the four bytes, where no frame
  was completed. The driver calls \<^verbatim>\<open>HandleFrame\<close> only for a result of non-zero length:
  for the empty frame it calls nothing, whatever bytes follow it handles the frames it
  handles without the four bytes, and for every input it handles exactly the emitted
  frames that are not empty.
\<close>

theorem empty_frame_unobservable:
  assumes "Parse DataStreamReader_init = Inr p"
    and "drive pre p = Inr (out, s)"
    and "idle s"
  shows "mValue (promise s) = [] \<and>
         (\<exists>s'. feed (encode_frame ESC SOF []) s = Inr s' \<and>
               yielded_frame s' = Some [] \<and>
               fst (FSM_call s') = [] \<and> fst (FSM_call s') = fst (FSM_call s)) \<and>
         (\<exists>s'. drive (pre @ encode_frame ESC SOF []) p = Inr (out, s')) \<and>
         map_sum id fst (drive (pre @ encode_frame ESC SOF [] @ rest) p) =
           map_sum id fst (drive (pre @ rest) p) \<and>
         (\<exists>s'. drive bs p = Inr (filter (\<lambda>f. length f \<noteq> 0) (emitted bs p), s'))"
proof -
  let ?ne = "\<lambda>f::cstring. length f \<noteq> 0"
  have p: "p = parser_init" using assms(1) Parse_init by simp
  have w: "waiting p" by (simp add: p waiting_init)
  have v: "mValue (promise p) = []" by (simp add: p parser_init_def)
  from drive_polled [OF w v, of pre] assms(2)
  have ws: "waiting s" and vs: "mValue (promise s) = []" by auto
  have i: "idle_point (point s)" using assms(3) by (simp add: idle_def)
  obtain s' where s': "feed (encode_frame ESC SOF []) s = Inr s'"
    using feed_waiting [OF ws] by blast
  have enc: "encode_frame ESC SOF [] = ([ESC, SOF] @ escape_content ESC [] @ [ESC]) @ [SOF]"
    by (simp add: encode_frame_def)
  have y: "yielded_frame s' = Some []"
    using yielded_frame_feed [OF ws s' [unfolded enc]] frame_points [OF i, of "[]"]
    by (simp add: enc)
  then have e1: "fst (FSM_call s') = []"
    by (simp add: yielded_frame_def FSM_call_def generator_call_def split: suspension.splits)
  have e2: "fst (FSM_call s) = []"
    using vs by (simp add: FSM_call_def generator_call_def)
  have A: "\<exists>s'. feed (encode_frame ESC SOF []) s = Inr s' \<and>
               yielded_frame s' = Some [] \<and>
               fst (FSM_call s') = [] \<and> fst (FSM_call s') = fst (FSM_call s)"
    using s' y e1 e2 by simp
  have fr: "frames_from (point s) (encode_frame ESC SOF [] @ rest) =
            [] # frames_from (point s) rest" for rest
    using frames_from_idle [OF _ i, of "Yielded []" rest]
    by (simp add: frames_from_append frame_frames [OF i] frame_points [OF i])
  obtain t where t: "drive (encode_frame ESC SOF [] @ rest) s =
      Inr (filter ?ne (frames_from (point s) rest), t)"
    using drive_polled [OF ws vs, of "encode_frame ESC SOF [] @ rest"] by (auto simp: fr)
  obtain u where u: "drive rest s = Inr (filter ?ne (frames_from (point s) rest), u)"
    using drive_polled [OF ws vs, of rest] by auto
  have C: "map_sum id fst (drive (pre @ encode_frame ESC SOF [] @ rest) p) =
           map_sum id fst (drive (pre @ rest) p)"
    by (simp add: drive_append [of pre] assms(2) t u)
  obtain t0 where t0: "drive (encode_frame ESC SOF []) s = Inr ([], t0)"
    using drive_polled [OF ws vs, of "encode_frame ESC SOF [] @ []"] fr [of "[]"] by auto
  have B: "\<exists>s'. drive (pre @ encode_frame ESC SOF []) p = Inr (out, s')"
    by (simp add: drive_append [of pre] assms(2) t0)
  have D: "\<exists>s'. drive bs p = Inr (filter ?ne (emitted bs p), s')"
    using drive_polled [OF w v, of bs] by (auto simp: emitted_waiting [OF w])
  show ?thesis using vs A B C D by blast
qed

text \<open>
  After the byte 0x70 the parser is idle; the empty frame before the frame "a" changes
  nothing in what the driver handles.
\<close>

theorem empty_frame_unobservable_witness:
  "Parse DataStreamReader_init = Inr parser_init \<and>
   drive [0x70] parser_init = Inr ([], parser_init) \<and>
   idle parser_init \<and>
   map_sum id fst (drive ([0x70] @ encode_frame ESC SOF [] @ encode_frame ESC SOF (text_bytes ''a''))
      parser_init) = Inr [text_bytes ''a''] \<and>
   map_sum id fst (drive ([0x70] @ encode_frame ESC SOF (text_bytes ''a'')) parser_init) =
     Inr [text_bytes ''a'']"
proof -
  have d: "drive [0x70] parser_init = Inr ([], parser_init)"
    by (simp add: run_defs)
  have i: "idle parser_init" by (simp add: idle_def parser_init_def)
  have r: "map_sum id fst (drive ([0x70] @ encode_frame ESC SOF (text_bytes ''a'')) parser_init) =
     Inr [text_bytes ''a'']"
    by (simp add: encode_frame_def run_defs)
  show ?thesis
    using empty_frame_unobservable [OF Parse_init d i, of "encode_frame ESC SOF (text_bytes ''a'')"]
      Parse_init d i r
    by simp
qed

text \<open>
  With a frame still in the slot, an empty frame is observed through \<^verbatim>\<open>p()\<close>: after the
  frame "a" alone \<^verbatim>\<open>p()\<close> returns "a"; after the frame "a" and an empty frame, with no
  \<^verbatim>\<open>p()\<close> in between, \<^verbatim>\<open>yield_value\<close> has overwritten the slot and \<^verbatim>\<open>p()\<close> returns the
  empty string.
\<close>

theorem empty_frame_erases_pending_counterexample:
  "feed (encode_frame ESC SOF (text_bytes ''a'')) parser_init =
     Inr (parser_init\<lparr>point := Yielded (text_bytes ''a''),
                      promise := \<lparr>mValue = text_bytes ''a''\<rparr>\<rparr>) \<and>
   fst (FSM_call (parser_init\<lparr>point := Yielded (text_bytes ''a''),
                              promise := \<lparr>mValue = text_bytes ''a''\<rparr>\<rparr>)) = text_bytes ''a'' \<and>
   feed (encode_frame ESC SOF (text_bytes ''a'') @ encode_frame ESC SOF []) parser_init =
     Inr (parser_init\<lparr>point := Yielded [], promise := \<lparr>mValue = []\<rparr>\<rparr>) \<and>
   fst (FSM_call (parser_init\<lparr>point := Yielded [], promise := \<lparr>mValue = []\<rparr>\<rparr>)) = [] \<and>
   text_bytes ''a'' \<noteq> []"
  by (simp add: encode_frame_def run_defs)

section \<open>The assertion in the awaiter\<close>

text \<open>
  Resuming the coroutine with no byte pushed, as the iterator of the generator would,
  fails the assertion.
\<close>

lemma resume_without_set_asserts: "resume parser_init = Inl AssertionFailed"
  by (simp add: resume_def await_resume_def parser_init_def)

text \<open>
  Claim C10. When bytes reach the stream through \<^verbatim>\<open>set\<close> only and \<^verbatim>\<open>Parse\<close> is the one
  coroutine awaiting on it, the assertion of \<^verbatim>\<open>await_resume\<close> never fails: whatever the
  stream holds when \<^verbatim>\<open>Parse\<close> is called and whatever bytes are pushed then, with or
  without \<^verbatim>\<open>p()\<close> after each push, every call returns, and each pushed byte is taken,
  the slot being empty afterwards. On a slot holding a byte \<^verbatim>\<open>await_resume\<close> returns
  that byte and empties the slot.
\<close>

theorem await_resume_assertion_holds:
  "(\<exists>p. Parse stream = Inr p \<and>
       (\<exists>s. feed bs p = Inr s \<and> mData s = None) \<and>
       (\<exists>out s. drive bs p = Inr (out, s) \<and> mData s = None)) \<and>
   await_resume (r\<lparr>mData := Some d\<rparr>) = Inr (d, r\<lparr>mData := None\<rparr>)"
proof -
  obtain p where p: "Parse stream = Inr p" "waiting p" using Parse_waiting by blast
  obtain s where "feed bs p = Inr s" "waiting s" using feed_waiting [OF p(2)] by blast
  moreover obtain out s' where "drive bs p = Inr (out, s')" "waiting s'"
    using drive_waiting [OF p(2)] by blast
  ultimately show ?thesis using p(1) by (auto simp: waiting_def await_resume_def)
qed

end
